theory Spec2Isabelle
  imports Complex_Main "HOL-Library.Word" "HOL-Library.Multiset"
begin

section \<open>Voucher selection: data model\<close>

text \<open>
  The program is \<^verbatim>\<open>main.go\<close>: a scoring function \<^verbatim>\<open>calculateDiscount\<close> and a
  fan-out/fan-in search \<^verbatim>\<open>findBestVoucher\<close> that scores every voucher in its own
  goroutine, collects the successful scores on a buffered channel and keeps the greatest.

  Numbers. Go's \<^verbatim>\<open>float64\<close> is modelled twice. The type \<open>float64\<close> below is IEEE 754
  binary64: the finite values, the two infinities and NaN, with every product, quotient and
  conversion rounded to nearest, ties to even, overflow to an infinity and gradual
  underflow; \<open>calculateDiscount_f64\<close> is the scoring function over it. The function
  \<open>calculateDiscount\<close> is the same code over \<open>real\<close>, that is on finite values with
  exact arithmetic; the two agree wherever the percentage product is not formed, or is
  formed without rounding (lemmas \<open>calculateDiscount_f64_exact\<close> and
  \<open>calculateDiscount_f64_exact_percentage\<close>). The search only stores and compares scores
  and is stated over the second. Go's \<^verbatim>\<open>int64\<close> is \<open>64 word\<close>, read signed.
\<close>

text \<open>The three \<^verbatim>\<open>errors.New\<close> values of the program, named after their messages:
  "order amount does not meet minimum requirement",
  "invalid voucher discount configuration", "no applicable voucher found".\<close>

datatype error = OrderBelowMinimum | InvalidDiscountConfig | NoApplicableVoucher

text \<open>\<^verbatim>\<open>sql.NullFloat64\<close> and \<^verbatim>\<open>sql.NullInt64\<close>: a value and the flag that says
  whether the column was non-NULL. The type parameter \<open>'f\<close> is the model of
  \<^verbatim>\<open>float64\<close>: \<open>real\<close> or \<open>float64\<close>.\<close>

record 'f NullFloat64 =
  Float64 :: 'f
  Valid :: bool

record NullInt64 =
  Int64 :: "64 word"
  Valid :: bool

record 'f Voucher =
  Id :: "64 word"
  Code :: string
  MinOrderAmount :: 'f
  DiscountAmount :: "'f NullFloat64"
  DiscountPercentage :: NullInt64
  MaxDiscountAmount :: "'f NullFloat64"

text \<open>The anonymous struct carried by \<^verbatim>\<open>resultChan\<close>.\<close>

record Result =
  Voucher :: "real Voucher"
  Discount :: real

text \<open>Go's zero value \<^verbatim>\<open>Voucher{}\<close>, which is also the initial value of the
  local \<^verbatim>\<open>bestVoucher\<close>.\<close>

definition Voucher_zero :: "real Voucher" where
  "Voucher_zero =
     \<lparr>Id = 0, Code = [], MinOrderAmount = 0,
      DiscountAmount = \<lparr>Float64 = 0, Valid = False\<rparr>,
      DiscountPercentage = \<lparr>Int64 = 0, Valid = False\<rparr>,
      MaxDiscountAmount = \<lparr>Float64 = 0, Valid = False\<rparr>\<rparr>"

text \<open>One row of table \<^verbatim>\<open>vouchers\<close> as \<^verbatim>\<open>rows.Scan\<close> stores it in a
  \<^verbatim>\<open>Voucher\<close> (\<^verbatim>\<open>fetchVouchers\<close>): a NULL column leaves the value zero and
  \<^verbatim>\<open>Valid\<close> false.\<close>

definition scanNullFloat64 :: "real option \<Rightarrow> real NullFloat64" where
  "scanNullFloat64 col =
     (case col of None \<Rightarrow> \<lparr>Float64 = 0, Valid = False\<rparr>
      | Some x \<Rightarrow> \<lparr>Float64 = x, Valid = True\<rparr>)"

definition scanNullInt64 :: "int option \<Rightarrow> NullInt64" where
  "scanNullInt64 col =
     (case col of None \<Rightarrow> \<lparr>Int64 = 0, Valid = False\<rparr>
      | Some x \<Rightarrow> \<lparr>Int64 = word_of_int x, Valid = True\<rparr>)"

definition scanVoucher ::
  "int \<Rightarrow> string \<Rightarrow> real \<Rightarrow> real option \<Rightarrow> int option \<Rightarrow> real option \<Rightarrow> real Voucher" where
  "scanVoucher row_id code min_order_amount discount_amount discount_percentage max_discount_amount =
     \<lparr>Id = word_of_int row_id, Code = code, MinOrderAmount = min_order_amount,
      DiscountAmount = scanNullFloat64 discount_amount,
      DiscountPercentage = scanNullInt64 discount_percentage,
      MaxDiscountAmount = scanNullFloat64 max_discount_amount\<rparr>"

section \<open>IEEE 754 binary64\<close>

text \<open>A \<^verbatim>\<open>float64\<close> is a finite value, an infinity or NaN. A finite value is kept
  as the real number it denotes, and every operation that can leave the set of
  \<^verbatim>\<open>float64\<close> values rounds its result back into it. The two zeros are one value:
  they compare equal, and the program never divides by a zero.\<close>

datatype float64 = Finite real | PosInf | NegInf | NaN

text \<open>The number of binary digits of a natural number, and with it the binary exponent of
  a positive real \<open>x\<close>: the \<open>e\<close> with \<open>2 powi e \<le> x\<close> and \<open>x < 2 powi (e + 1)\<close>
  (lemma \<open>ilog2_bounds\<close>).\<close>

fun bits :: "nat \<Rightarrow> nat" where
  "bits n = (if n = 0 then 0 else Suc (bits (n div 2)))"

declare bits.simps [simp del]

definition ilog2 :: "real \<Rightarrow> int" where
  "ilog2 x = (if 1 \<le> x then int (bits (nat \<lfloor>x\<rfloor>)) - 1
              else - int (bits (nat (\<lceil>1 / x\<rceil> - 1))))"

text \<open>Rounding to the nearest integer, a tie going to the even one.\<close>

definition roundHalfEven :: "real \<Rightarrow> int" where
  "roundHalfEven r =
     (if r - of_int \<lfloor>r\<rfloor> < 1 / 2 then \<lfloor>r\<rfloor>
      else if 1 / 2 < r - of_int \<lfloor>r\<rfloor> then \<lfloor>r\<rfloor> + 1
      else if even \<lfloor>r\<rfloor> then \<lfloor>r\<rfloor> else \<lfloor>r\<rfloor> + 1)"

text \<open>Rounding a real to \<^verbatim>\<open>float64\<close>: the spacing of the values around \<open>x\<close> is
  \<open>2 powi (e - 52)\<close> for the exponent \<open>e\<close> of \<open>x\<close>, and not less than \<open>2 powi (- 1074)\<close>
  (subnormal values); a result of magnitude \<open>2 powi 1024\<close> or more is an infinity.\<close>

definition round64 :: "real \<Rightarrow> float64" where
  "round64 x =
     (if x = 0 then Finite 0
      else
        let e = max (ilog2 \<bar>x\<bar>) (- 1022);
            ulp = 2 powi (e - 52);
            y = of_int (roundHalfEven (x / ulp)) * ulp
        in if 2 powi 1024 \<le> \<bar>y\<bar> then (if 0 < x then PosInf else NegInf) else Finite y)"

text \<open>Go's comparisons \<^verbatim>\<open><\<close> and \<^verbatim>\<open><=\<close>: false as soon as an operand is NaN.\<close>

fun f64_lt :: "float64 \<Rightarrow> float64 \<Rightarrow> bool" where
  "f64_lt (Finite x) (Finite y) = (x < y)"
| "f64_lt (Finite x) PosInf = True"
| "f64_lt NegInf (Finite y) = True"
| "f64_lt NegInf PosInf = True"
| "f64_lt a b = False"

fun f64_le :: "float64 \<Rightarrow> float64 \<Rightarrow> bool" where
  "f64_le (Finite x) (Finite y) = (x \<le> y)"
| "f64_le (Finite x) PosInf = True"
| "f64_le NegInf (Finite y) = True"
| "f64_le NegInf PosInf = True"
| "f64_le NegInf NegInf = True"
| "f64_le PosInf PosInf = True"
| "f64_le a b = False"

fun f64_finite :: "float64 \<Rightarrow> bool" where
  "f64_finite (Finite x) = True"
| "f64_finite a = False"

text \<open>Go's \<^verbatim>\<open>*\<close> and \<^verbatim>\<open>/\<close>. A zero divisor is taken as the positive zero; the
  only divisor of the program is the constant 100.\<close>

fun f64_mul :: "float64 \<Rightarrow> float64 \<Rightarrow> float64" where
  "f64_mul NaN b = NaN"
| "f64_mul a NaN = NaN"
| "f64_mul (Finite x) (Finite y) = round64 (x * y)"
| "f64_mul (Finite x) PosInf = (if x = 0 then NaN else if 0 < x then PosInf else NegInf)"
| "f64_mul (Finite x) NegInf = (if x = 0 then NaN else if 0 < x then NegInf else PosInf)"
| "f64_mul PosInf (Finite y) = (if y = 0 then NaN else if 0 < y then PosInf else NegInf)"
| "f64_mul NegInf (Finite y) = (if y = 0 then NaN else if 0 < y then NegInf else PosInf)"
| "f64_mul PosInf PosInf = PosInf"
| "f64_mul PosInf NegInf = NegInf"
| "f64_mul NegInf PosInf = NegInf"
| "f64_mul NegInf NegInf = PosInf"

fun f64_div :: "float64 \<Rightarrow> float64 \<Rightarrow> float64" where
  "f64_div NaN b = NaN"
| "f64_div a NaN = NaN"
| "f64_div (Finite x) (Finite y) =
     (if y = 0 then (if x = 0 then NaN else if 0 < x then PosInf else NegInf)
      else round64 (x / y))"
| "f64_div (Finite x) b = Finite 0"
| "f64_div PosInf (Finite y) = (if 0 \<le> y then PosInf else NegInf)"
| "f64_div NegInf (Finite y) = (if 0 \<le> y then NegInf else PosInf)"
| "f64_div a b = NaN"

text \<open>\<^verbatim>\<open>math.Floor\<close>, which is exact and returns an infinity or NaN unchanged, and
  the conversion \<^verbatim>\<open>float64(x)\<close> of an \<^verbatim>\<open>int64\<close>, which rounds.\<close>

fun f64_floor :: "float64 \<Rightarrow> float64" where
  "f64_floor (Finite x) = Finite (of_int \<lfloor>x\<rfloor>)"
| "f64_floor a = a"

definition f64_of_int64 :: "64 word \<Rightarrow> float64" where
  "f64_of_int64 w = round64 (of_int (sint w))"

section \<open>The scoring function\<close>

text \<open>\<^verbatim>\<open>calculateDiscount\<close> returns the pair \<^verbatim>\<open>(float64, error)\<close>; a nil error is
  \<open>None\<close>. The \<^verbatim>\<open>if\<close> chain of lines 83 to 94 either assigns \<^verbatim>\<open>discount\<close> or
  returns the configuration error; the floor of line 97 comes after the whole chain, so it
  applies to the flat branch as well as to the percentage branch. First the function in
  \<^verbatim>\<open>float64\<close> arithmetic.\<close>

definition calculateDiscount_f64 :: "float64 Voucher \<Rightarrow> float64 \<Rightarrow> float64 \<times> error option" where
  "calculateDiscount_f64 v orderAmount =
     (if f64_lt orderAmount (MinOrderAmount v) then (Finite 0, Some OrderBelowMinimum)
      else
        case
          (if NullFloat64.Valid (DiscountAmount v) then Some (Float64 (DiscountAmount v))
           else if NullInt64.Valid (DiscountPercentage v) then
             (let discount =
                    f64_div (f64_mul orderAmount (f64_of_int64 (Int64 (DiscountPercentage v))))
                      (Finite 100)
              in if NullFloat64.Valid (MaxDiscountAmount v) \<and>
                    f64_lt (Float64 (MaxDiscountAmount v)) discount
                 then Some (Float64 (MaxDiscountAmount v))
                 else Some discount)
           else None)
        of
          None \<Rightarrow> (Finite 0, Some InvalidDiscountConfig)
        | Some discount \<Rightarrow> (f64_floor discount, None))"

text \<open>A voucher with finite values, as a voucher of \<^verbatim>\<open>float64\<close> values.\<close>

definition f64Voucher :: "real Voucher \<Rightarrow> float64 Voucher" where
  "f64Voucher v =
     \<lparr>Id = Id v, Code = Code v, MinOrderAmount = Finite (MinOrderAmount v),
      DiscountAmount =
        \<lparr>Float64 = Finite (Float64 (DiscountAmount v)),
         Valid = NullFloat64.Valid (DiscountAmount v)\<rparr>,
      DiscountPercentage = DiscountPercentage v,
      MaxDiscountAmount =
        \<lparr>Float64 = Finite (Float64 (MaxDiscountAmount v)),
         Valid = NullFloat64.Valid (MaxDiscountAmount v)\<rparr>\<rparr>"

text \<open>The same function on finite values with exact arithmetic.\<close>

definition calculateDiscount :: "real Voucher \<Rightarrow> real \<Rightarrow> real \<times> error option" where
  "calculateDiscount v orderAmount =
     (if orderAmount < MinOrderAmount v then (0, Some OrderBelowMinimum)
      else
        case
          (if NullFloat64.Valid (DiscountAmount v) then Some (Float64 (DiscountAmount v))
           else if NullInt64.Valid (DiscountPercentage v) then
             (let discount = orderAmount * of_int (sint (Int64 (DiscountPercentage v))) / 100
              in if NullFloat64.Valid (MaxDiscountAmount v) \<and> discount > Float64 (MaxDiscountAmount v)
                 then Some (Float64 (MaxDiscountAmount v))
                 else Some discount)
           else None)
        of
          None \<Rightarrow> (0, Some InvalidDiscountConfig)
        | Some discount \<Rightarrow> (of_int \<lfloor>discount\<rfloor>, None))"

section \<open>The concurrent search\<close>

text \<open>The body of one worker goroutine, seen from \<^verbatim>\<open>resultChan\<close>: it sends one
  \<^verbatim>\<open>Result\<close> when \<^verbatim>\<open>calculateDiscount\<close> succeeds and nothing (it logs and returns)
  when it fails.\<close>

definition worker :: "real Voucher \<Rightarrow> real \<Rightarrow> Result list" where
  "worker v orderAmount =
     (case calculateDiscount v orderAmount of
        (discount, None) \<Rightarrow> [\<lparr>Voucher = v, Discount = discount\<rparr>]
      | (discount, Some err) \<Rightarrow> [])"


text \<open>The body of the reduction loop (lines 147 to 150) on the two locals
  \<^verbatim>\<open>bestVoucher\<close> and \<^verbatim>\<open>maxDiscount\<close>, and the loop itself over a delivered
  sequence, started as the source starts it: \<^verbatim>\<open>Voucher{}\<close> and \<^verbatim>\<open>0\<close>.\<close>

fun reduceStep :: "real Voucher \<times> real \<Rightarrow> Result \<Rightarrow> real Voucher \<times> real" where
  "reduceStep (bestVoucher, maxDiscount) result =
     (if Discount result > maxDiscount then (Voucher result, Discount result)
      else (bestVoucher, maxDiscount))"

definition reduceLoop :: "Result list \<Rightarrow> real Voucher \<times> real" where
  "reduceLoop results = foldl reduceStep (Voucher_zero, 0) results"

text \<open>
  The state of one call of \<^verbatim>\<open>findBestVoucher\<close>:
  \<^item> \<open>vouchers\<close>: the part of the slice the \<^verbatim>\<open>for ... range vouchers\<close> loop has
    not reached;
  \<^item> \<open>workerPool\<close>: one entry per token in the channel \<^verbatim>\<open>workerPool\<close>, that is per
    goroutine that has been started and has not released its slot, each with the voucher
    it was started on;
  \<^item> \<open>resultChan\<close>: the buffer of the channel, oldest first, and \<open>resultCap\<close> its
    capacity \<^verbatim>\<open>len(vouchers)\<close>;
  \<^item> \<open>bestVoucher\<close>, \<open>maxDiscount\<close>: the two locals the mutex guards.
\<close>

record State =
  vouchers :: "real Voucher list"
  workerPool :: "real Voucher list"
  resultChan :: "Result list"
  resultCap :: nat
  bestVoucher :: "real Voucher"
  maxDiscount :: real

definition init :: "real Voucher list \<Rightarrow> State" where
  "init vs =
     \<lparr>vouchers = vs, workerPool = [], resultChan = [], resultCap = length vs,
      bestVoucher = Voucher_zero, maxDiscount = 0\<rparr>"

text \<open>
  What can happen next is chosen by the Go scheduler; the model takes the choice as an
  event and says whether the program can do it (\<open>None\<close>: it cannot, the goroutine
  concerned is blocked or does not exist).
  \<^item> \<open>Spawn\<close>: one iteration of the dispatch loop. The send \<^verbatim>\<open>workerPool <- struct{}{}\<close>
    needs a free slot among the \<open>W\<close> of the pool (\<open>W\<close> is 10 in the source).
  \<^item> \<open>Finish i\<close>: goroutine \<open>i\<close> of the pool runs to its end: it sends its result, if
    any, which needs room in \<^verbatim>\<open>resultChan\<close>, and its deferred calls release the slot
    and signal the wait group. The send comes before the release in the source, and a
    release only enables further events, so taking both as one event loses no order in
    which results can reach \<^verbatim>\<open>resultChan\<close>.
  \<^item> \<open>Receive\<close>: one iteration of \<^verbatim>\<open>for result := range resultChan\<close>. The main
    goroutine reaches that loop only after the dispatch loop.
\<close>

datatype event = Spawn | Finish nat | Receive

fun step :: "nat \<Rightarrow> real \<Rightarrow> event \<Rightarrow> State \<Rightarrow> State option" where
  "step W orderAmount Spawn s =
     (case vouchers s of
        [] \<Rightarrow> None
      | v # vs \<Rightarrow>
          if length (workerPool s) < W
          then Some (s\<lparr>vouchers := vs, workerPool := workerPool s @ [v]\<rparr>)
          else None)"
| "step W orderAmount (Finish i) s =
     (if i < length (workerPool s) \<and>
         length (resultChan s) + length (worker (workerPool s ! i) orderAmount) \<le> resultCap s
      then Some (s\<lparr>workerPool := take i (workerPool s) @ drop (Suc i) (workerPool s),
                   resultChan := resultChan s @ worker (workerPool s ! i) orderAmount\<rparr>)
      else None)"
| "step W orderAmount Receive s =
     (case resultChan s of
        [] \<Rightarrow> None
      | result # rest \<Rightarrow>
          if vouchers s = []
          then (case reduceStep (bestVoucher s, maxDiscount s) result of
                  (bv, md) \<Rightarrow> Some (s\<lparr>resultChan := rest, bestVoucher := bv, maxDiscount := md\<rparr>))
          else None)"

fun exec :: "nat \<Rightarrow> real \<Rightarrow> event list \<Rightarrow> State \<Rightarrow> State option" where
  "exec W orderAmount [] s = Some s"
| "exec W orderAmount (e # es) s =
     (case step W orderAmount e s of
        None \<Rightarrow> None
      | Some s' \<Rightarrow> exec W orderAmount es s')"

text \<open>The range loop ends when \<^verbatim>\<open>resultChan\<close> is closed and empty; it is closed
  after \<^verbatim>\<open>wg.Wait()\<close>, that is when every voucher has been dispatched and every
  goroutine is done.\<close>

definition finished :: "State \<Rightarrow> bool" where
  "finished s \<longleftrightarrow> vouchers s = [] \<and> workerPool s = [] \<and> resultChan s = []"

text \<open>Lines 154 to 158.\<close>

definition returnValue :: "State \<Rightarrow> real Voucher \<times> real \<times> error option" where
  "returnValue s =
     (if maxDiscount s = 0 then (Voucher_zero, 0, Some NoApplicableVoucher)
      else (bestVoucher s, maxDiscount s, None))"

text \<open>\<^verbatim>\<open>findBestVoucher\<close> under a schedule: \<open>Some\<close> of what the call returns when the
  schedule is a complete run of the program, \<open>None\<close> when it is not a run or stops
  before the end. The unused parameter \<^verbatim>\<open>ctx\<close> is left out.\<close>

definition findBestVoucher ::
  "nat \<Rightarrow> real Voucher list \<Rightarrow> real \<Rightarrow> event list \<Rightarrow> (real Voucher \<times> real \<times> error option) option" where
  "findBestVoucher W vs orderAmount schedule =
     (case exec W orderAmount schedule (init vs) of
        None \<Rightarrow> None
      | Some s \<Rightarrow> if finished s then Some (returnValue s) else None)"



section \<open>Properties of the rounding\<close>

text \<open>The exponent is the right one; rounding moves a value by at most half the spacing,
  keeps its sign, leaves every \<^verbatim>\<open>float64\<close> value where it is, stays finite below
  \<open>2 powi 1023\<close> and overflows from \<open>2 powi 1024\<close> on.\<close>

lemma bits_bounds: "0 < n \<Longrightarrow> 2 ^ (bits n - 1) \<le> n \<and> n < 2 ^ bits n"
proof (induction n rule: bits.induct)
  case (1 n)
  show ?case
  proof (cases "n div 2 = 0")
    case True
    with "1.prems" have "n = 1" by (auto simp: div_eq_0_iff)
    then show ?thesis by (simp add: bits.simps)
  next
    case False
    with "1.IH" "1.prems" have ih: "2 ^ (bits (n div 2) - 1) \<le> n div 2" "n div 2 < 2 ^ bits (n div 2)"
      by auto
    from False have pos: "0 < bits (n div 2)" by (simp add: bits.simps [of "n div 2"])
    have b: "bits n = Suc (bits (n div 2))" using "1.prems" by (simp add: bits.simps [of n])
    have "2 ^ (bits n - 1) = 2 * 2 ^ (bits (n div 2) - 1)"
      using pos b by (cases "bits (n div 2)") simp_all
    also have "\<dots> \<le> 2 * (n div 2)" using ih(1) by simp
    also have "\<dots> \<le> n" by simp
    finally have lo: "2 ^ (bits n - 1) \<le> n" .
    have "n < 2 * (n div 2) + 2" by presburger
    also have "\<dots> \<le> 2 * 2 ^ bits (n div 2)" using ih(2) by simp
    finally have "n < 2 ^ bits n" using b by simp
    with lo show ?thesis by simp
  qed
qed

lemma bits_pos: "0 < n \<Longrightarrow> 0 < bits n"
  by (simp add: bits.simps [of n])

lemma ilog2_bounds:
  assumes "0 < x"
  shows "2 powi ilog2 x \<le> x \<and> x < 2 powi (ilog2 x + 1)"
proof (cases "1 \<le> x")
  case True
  define n where "n = nat \<lfloor>x\<rfloor>"
  from True have n: "0 < n" "real n \<le> x" "x < real n + 1"
    by (auto simp: n_def)
  from bits_bounds [OF n(1)] have b: "2 ^ (bits n - 1) \<le> n" "n < 2 ^ bits n" by auto
  from bits_pos [OF n(1)] have il: "ilog2 x = int (bits n - 1)"
    using True by (simp add: ilog2_def n_def)
  have p1: "2 powi ilog2 x = (2::real) ^ (bits n - 1)" unfolding il by (rule power_int_of_nat)
  have "ilog2 x + 1 = int (bits n)" using il bits_pos [OF n(1)] by simp
  then have p2: "2 powi (ilog2 x + 1) = (2::real) ^ bits n" by simp
  have "real (2 ^ (bits n - 1)) \<le> real n" using b(1) by (rule iffD2 [OF of_nat_le_iff])
  then have r1: "(2::real) ^ (bits n - 1) \<le> real n" by simp
  have "n + 1 \<le> 2 ^ bits n" using b(2) by simp
  then have "real (n + 1) \<le> real (2 ^ bits n)" by (rule iffD2 [OF of_nat_le_iff])
  then have r2: "real n + 1 \<le> (2::real) ^ bits n" by simp
  from r1 n(2) have "(2::real) ^ (bits n - 1) \<le> x" by (rule order_trans)
  moreover from n(3) r2 have "x < (2::real) ^ bits n" by (rule less_le_trans)
  ultimately show ?thesis unfolding p1 p2 by (rule conjI)
next
  case False
  with assms have x: "0 < x" "x < 1" by simp_all
  define c where "c = \<lceil>1 / x\<rceil>"
  define n where "n = nat (c - 1)"
  from x have big: "1 < 1 / x" by simp
  then have c2: "2 \<le> c" unfolding c_def by linarith
  then have n: "0 < n" "int n = c - 1" by (simp_all add: n_def)
  have cx: "1 / x \<le> of_int c" "of_int c - 1 < 1 / x" unfolding c_def by linarith+
  from bits_bounds [OF n(1)] have b: "2 ^ (bits n - 1) \<le> n" "n < 2 ^ bits n" by auto
  have il: "ilog2 x = - int (bits n)" using False by (simp add: ilog2_def n_def c_def)
  have p1: "2 powi ilog2 x = 1 / (2::real) ^ bits n"
    unfolding il by (simp add: power_int_minus field_simps)
  have "ilog2 x + 1 = - int (bits n - 1)" using il bits_pos [OF n(1)] by simp
  then have p2: "2 powi (ilog2 x + 1) = 1 / (2::real) ^ (bits n - 1)"
    by (simp add: power_int_minus field_simps)
  have rn: "real n = of_int c - 1" using n(2) by (metis of_int_of_nat_eq of_int_diff of_int_1)
  have "real (2 ^ (bits n - 1)) \<le> real n" using b(1) by (rule iffD2 [OF of_nat_le_iff])
  then have r1: "(2::real) ^ (bits n - 1) \<le> real n" by simp
  have "n + 1 \<le> 2 ^ bits n" using b(2) by simp
  then have "real (n + 1) \<le> real (2 ^ bits n)" by (rule iffD2 [OF of_nat_le_iff])
  then have r2: "real n + 1 \<le> (2::real) ^ bits n" by simp
  from cx(1) rn r2 have u: "1 / x \<le> (2::real) ^ bits n" by linarith
  from cx(2) rn r1 have l: "(2::real) ^ (bits n - 1) < 1 / x" by linarith
  have pp: "0 < (2::real) ^ bits n" "0 < (2::real) ^ (bits n - 1)" by simp_all
  from u x(1) pp(1) have "1 / (2::real) ^ bits n \<le> x"
    by (simp add: field_simps)
  moreover from l x(1) pp(2) have "x < 1 / (2::real) ^ (bits n - 1)"
    by (simp add: field_simps)
  ultimately show ?thesis unfolding p1 p2 by (rule conjI)
qed

lemma roundHalfEven_near: "\<bar>of_int (roundHalfEven r) - r\<bar> \<le> 1 / 2"
  unfolding roundHalfEven_def by (auto; linarith)

lemma roundHalfEven_nonneg: "0 \<le> r \<Longrightarrow> 0 \<le> roundHalfEven r"
  unfolding roundHalfEven_def by auto

lemma roundHalfEven_int: "roundHalfEven (of_int k) = k"
  unfolding roundHalfEven_def by simp

lemma round64_zero: "round64 0 = Finite 0"
  by (simp add: round64_def)

lemma round64_nonneg:
  assumes "0 \<le> x"
  shows "round64 x = PosInf \<or> (\<exists>y. 0 \<le> y \<and> round64 x = Finite y)"
proof (cases "x = 0")
  case True
  then show ?thesis by (simp add: round64_def)
next
  case False
  define ulp :: real where "ulp = 2 powi (max (ilog2 \<bar>x\<bar>) (- 1022) - 52)"
  define y where "y = of_int (roundHalfEven (x / ulp)) * ulp"
  have ulp: "0 < ulp" unfolding ulp_def by simp
  with assms have "0 \<le> x / ulp" by simp
  then have "0 \<le> roundHalfEven (x / ulp)" by (rule roundHalfEven_nonneg)
  with ulp have y: "0 \<le> y" unfolding y_def by simp
  from False assms have "0 < x" by simp
  with False have "round64 x = (if 2 powi 1024 \<le> \<bar>y\<bar> then PosInf else Finite y)"
    by (simp add: round64_def Let_def ulp_def y_def)
  with y show ?thesis by auto
qed

lemma round64_near:
  assumes "round64 x = Finite y"
  shows "\<bar>y - x\<bar> \<le> 2 powi (max (ilog2 \<bar>x\<bar>) (- 1022) - 53)"
proof (cases "x = 0")
  case True
  with assms show ?thesis by (simp add: round64_def)
next
  case False
  define ulp :: real where "ulp = 2 powi (max (ilog2 \<bar>x\<bar>) (- 1022) - 52)"
  have ulp: "0 < ulp" unfolding ulp_def by simp
  from False assms have y: "y = of_int (roundHalfEven (x / ulp)) * ulp"
    by (auto simp: round64_def Let_def ulp_def split: if_splits)
  have "\<bar>of_int (roundHalfEven (x / ulp)) - x / ulp\<bar> \<le> 1 / 2" by (rule roundHalfEven_near)
  then have "\<bar>of_int (roundHalfEven (x / ulp)) - x / ulp\<bar> * ulp \<le> 1 / 2 * ulp"
    using ulp by (intro mult_right_mono) simp_all
  moreover have "\<bar>of_int (roundHalfEven (x / ulp)) - x / ulp\<bar> * ulp = \<bar>y - x\<bar>"
  proof -
    have "\<bar>of_int (roundHalfEven (x / ulp)) - x / ulp\<bar> * ulp
        = \<bar>(of_int (roundHalfEven (x / ulp)) - x / ulp) * ulp\<bar>"
      using ulp by (simp add: abs_mult)
    also have "(of_int (roundHalfEven (x / ulp)) - x / ulp) * ulp = y - x"
      using ulp by (simp add: y algebra_simps)
    finally show ?thesis .
  qed
  moreover have "1 / 2 * ulp = 2 powi (max (ilog2 \<bar>x\<bar>) (- 1022) - 53)"
  proof -
    define k where "k = max (ilog2 \<bar>x\<bar>) (- 1022) - 53"
    have "(2::real) powi (k + 1) = 2 powi k * 2 powi 1" by (rule power_int_add) simp
    moreover have "ulp = 2 powi (k + 1)" unfolding ulp_def k_def by simp
    ultimately show ?thesis unfolding k_def by simp
  qed
  ultimately show ?thesis by simp
qed

lemma round64_finite:
  assumes "\<bar>x\<bar> < 2 powi 1023"
  shows "\<exists>y. round64 x = Finite y"
proof (cases "x = 0")
  case True
  then show ?thesis by (simp add: round64_def)
next
  case False
  define e where "e = max (ilog2 \<bar>x\<bar>) (- 1022)"
  define ulp :: real where "ulp = 2 powi (e - 52)"
  define y where "y = of_int (roundHalfEven (x / ulp)) * ulp"
  have ulp: "0 < ulp" unfolding ulp_def by simp
  from False have "0 < \<bar>x\<bar>" by simp
  from ilog2_bounds [OF this] assms have "(2::real) powi ilog2 \<bar>x\<bar> < 2 powi 1023" by linarith
  then have "ilog2 \<bar>x\<bar> < 1023"
    using power_int_increasing [of 1023 "ilog2 \<bar>x\<bar>" "2::real"] by (cases "ilog2 \<bar>x\<bar> < 1023") auto
  then have "e - 52 \<le> 970" unfolding e_def by simp
  then have "ulp \<le> 2 powi 970" unfolding ulp_def by (intro power_int_increasing) simp_all
  have "\<bar>of_int (roundHalfEven (x / ulp)) - x / ulp\<bar> \<le> 1 / 2" by (rule roundHalfEven_near)
  then have "\<bar>of_int (roundHalfEven (x / ulp))\<bar> \<le> \<bar>x / ulp\<bar> + (1::real)" by linarith
  then have "\<bar>of_int (roundHalfEven (x / ulp))\<bar> * ulp \<le> (\<bar>x / ulp\<bar> + 1) * ulp"
    using ulp by (intro mult_right_mono) simp_all
  also have "(\<bar>x / ulp\<bar> + 1) * ulp = \<bar>x\<bar> + ulp" using ulp by (simp add: algebra_simps abs_mult)
  finally have "\<bar>y\<bar> \<le> \<bar>x\<bar> + ulp" using ulp by (simp add: y_def abs_mult)
  with assms \<open>ulp \<le> 2 powi 970\<close> have "\<bar>y\<bar> < 2 powi 1023 + 2 powi 970" by linarith
  also have "\<dots> \<le> (2::real) powi 1024" by simp
  finally have "\<not> 2 powi 1024 \<le> \<bar>y\<bar>" by simp
  with False have "round64 x = Finite y"
    by (simp add: round64_def Let_def e_def ulp_def y_def)
  then show ?thesis by blast
qed

lemma f64_of_int64_finite: "\<exists>y. f64_of_int64 w = Finite y"
proof -
  define k where "k = sint w"
  have "k < 2 ^ 63" "- (2 ^ 63) \<le> k"
    using sint_lt [of w] sint_ge [of w] by (simp_all add: k_def)
  then have "\<bar>real_of_int k\<bar> \<le> 2 ^ 63" by (simp add: abs_le_iff)
  also have "\<dots> < (2::real) powi 1023" by simp
  finally have "\<exists>y. round64 (real_of_int k) = Finite y" by (rule round64_finite)
  then show ?thesis unfolding f64_of_int64_def k_def .
qed

lemma f64_of_int64_nonneg:
  assumes "0 \<le> sint w"
  shows "\<exists>y. 0 \<le> y \<and> f64_of_int64 w = Finite y"
proof -
  from assms have "(0::real) \<le> of_int (sint w)" by (rule iffD2 [OF of_int_0_le_iff])
  from round64_nonneg [OF this] f64_of_int64_finite [of w] show ?thesis
    by (auto simp: f64_of_int64_def)
qed

lemma power_int_less_cancel:
  assumes "(2::real) powi a < 2 powi b"
  shows "a < b"
  using power_int_increasing [of b a "2::real"] assms by (cases "a < b") auto

lemma round64_representable:
  assumes "\<bar>m\<bar> < 2 ^ 53" and "- 1074 \<le> e" and "e \<le> 971"
  shows "round64 (of_int m * 2 powi e) = Finite (of_int m * 2 powi e)"
proof (cases "m = 0")
  case True
  then show ?thesis by (simp add: round64_def)
next
  case False
  define x :: real where "x = of_int m * 2 powi e"
  have pe: "0 < (2::real) powi e" by simp
  from False have x0: "x \<noteq> 0" unfolding x_def by simp
  have ax: "\<bar>x\<bar> = of_int \<bar>m\<bar> * 2 powi e" unfolding x_def by (simp add: abs_mult)
  from assms(1) have "(of_int \<bar>m\<bar> :: real) < 2 ^ 53"
    by (metis of_int_less_iff of_int_numeral of_int_power)
  then have "\<bar>x\<bar> < 2 ^ 53 * 2 powi e" unfolding ax using pe by (rule mult_strict_right_mono)
  also have "(2::real) ^ 53 * 2 powi e = 2 powi (53 + e)"
    using power_int_add [of "2::real" 53 e] by simp
  finally have up: "\<bar>x\<bar> < 2 powi (53 + e)" .
  from x0 have "0 < \<bar>x\<bar>" by simp
  from ilog2_bounds [OF this] up have "(2::real) powi ilog2 \<bar>x\<bar> < 2 powi (53 + e)" by linarith
  then have il: "ilog2 \<bar>x\<bar> < 53 + e" by (rule power_int_less_cancel)
  define e' where "e' = max (ilog2 \<bar>x\<bar>) (- 1022)"
  define k where "k = nat (e - (e' - 52))"
  from il assms(2) have k: "0 \<le> e - (e' - 52)" unfolding e'_def by simp
  then have ek: "e = (e' - 52) + int k" unfolding k_def by simp
  have "(2::real) powi e = 2 powi (e' - 52) * 2 powi (int k)"
    unfolding ek [symmetric] using power_int_add [of "2::real" "e' - 52" "int k"] ek by simp
  then have split: "(2::real) powi e = 2 powi (e' - 52) * 2 ^ k" by simp
  have ulp: "0 < (2::real) powi (e' - 52)" by simp
  have "x / 2 powi (e' - 52) = of_int m * 2 ^ k"
    unfolding x_def split using ulp by simp
  also have "\<dots> = of_int (m * 2 ^ k)" by simp
  finally have q: "x / 2 powi (e' - 52) = of_int (m * 2 ^ k)" .
  have y: "of_int (roundHalfEven (x / 2 powi (e' - 52))) * 2 powi (e' - 52) = x"
    unfolding q roundHalfEven_int using q ulp by (simp add: field_simps)
  from assms(3) have "53 + e \<le> 1024" by simp
  then have "(2::real) powi (53 + e) \<le> 2 powi 1024" by (intro power_int_increasing) simp_all
  with up have "\<not> 2 powi 1024 \<le> \<bar>x\<bar>" by linarith
  with x0 y have "round64 x = Finite x"
    by (simp add: round64_def Let_def e'_def [symmetric])
  then show ?thesis unfolding x_def .
qed

text \<open>Some known values: one tenth, forty-five hundredths, and the greatest \<^verbatim>\<open>int64\<close>,
  which rounds up.\<close>

lemma round64_examples:
  "round64 (1 / 10) = Finite (3602879701896397 / 2 ^ 55)"
  "round64 (45 / 100) = Finite (8106479329266893 / 2 ^ 54)"
  "round64 (2 ^ 63 - 1) = Finite (2 ^ 63)"
  by (simp_all add: round64_def ilog2_def bits.simps roundHalfEven_def Let_def)

lemma roundHalfEven_floor: "\<lfloor>r\<rfloor> \<le> roundHalfEven r \<and> roundHalfEven r \<le> \<lfloor>r\<rfloor> + 1"
  unfolding roundHalfEven_def by auto

lemma roundHalfEven_ge:
  assumes "of_int k \<le> r"
  shows "k \<le> roundHalfEven r"
proof -
  from assms have "k \<le> \<lfloor>r\<rfloor>" by (simp add: le_floor_iff)
  with roundHalfEven_floor [of r] show ?thesis by linarith
qed

lemma roundHalfEven_le:
  assumes "r \<le> of_int k"
  shows "roundHalfEven r \<le> k"
proof (cases "r = of_int k")
  case True
  then show ?thesis by (simp add: roundHalfEven_int)
next
  case False
  with assms have "r < of_int k" by simp
  then have "\<lfloor>r\<rfloor> < k" by (simp add: floor_less_iff)
  with roundHalfEven_floor [of r] show ?thesis by linarith
qed

lemma round64_overflow:
  assumes "2 powi 1024 \<le> \<bar>x\<bar>"
  shows "round64 x = (if 0 < x then PosInf else NegInf)"
proof -
  have p: "0 < (2::real) powi 1024" by simp
  with assms have x0: "x \<noteq> 0" by auto
  then have ax: "0 < \<bar>x\<bar>" by simp
  define e where "e = ilog2 \<bar>x\<bar>"
  from ilog2_bounds [OF ax] have b: "2 powi e \<le> \<bar>x\<bar>" "\<bar>x\<bar> < 2 powi (e + 1)"
    unfolding e_def by simp_all
  from assms b(2) have "(2::real) powi 1024 < 2 powi (e + 1)" by linarith
  then have e: "1024 \<le> e" using power_int_less_cancel [of 1024 "e + 1"] by simp
  then have m: "max e (- 1022) = e" by simp
  define ulp :: real where "ulp = 2 powi (e - 52)"
  have ulp: "0 < ulp" unfolding ulp_def by simp
  have "(2::real) powi e = 2 powi (e - 52) * 2 powi 52"
    using power_int_add [of "2::real" "e - 52" 52] by simp
  then have pe: "(2::real) powi e = ulp * 2 ^ 52" unfolding ulp_def by simp
  define y where "y = of_int (roundHalfEven (x / ulp)) * ulp"
  have big: "2 powi e \<le> \<bar>y\<bar>"
  proof (cases "0 < x")
    case True
    with b(1) have "ulp * 2 ^ 52 \<le> x" unfolding pe by simp
    then have "of_int (2 ^ 52) \<le> x / ulp" using ulp by (simp add: field_simps)
    then have "2 ^ 52 \<le> roundHalfEven (x / ulp)" by (rule roundHalfEven_ge)
    then have "(2::real) ^ 52 \<le> of_int (roundHalfEven (x / ulp))"
      by (metis of_int_le_iff of_int_numeral of_int_power)
    then have "2 ^ 52 * ulp \<le> of_int (roundHalfEven (x / ulp)) * ulp"
      using ulp by (intro mult_right_mono) simp_all
    then have "2 powi e \<le> y" unfolding pe y_def by (simp add: mult.commute)
    then show ?thesis by linarith
  next
    case False
    with x0 b(1) have "x \<le> - (ulp * 2 ^ 52)" unfolding pe by simp
    then have "x / ulp \<le> of_int (- (2 ^ 52))" using ulp by (simp add: field_simps)
    then have "roundHalfEven (x / ulp) \<le> - (2 ^ 52)" by (rule roundHalfEven_le)
    then have "of_int (roundHalfEven (x / ulp)) \<le> (of_int (- (2 ^ 52)) :: real)"
      by (rule iffD2 [OF of_int_le_iff])
    then have "of_int (roundHalfEven (x / ulp)) \<le> - ((2::real) ^ 52)" by simp
    then have "of_int (roundHalfEven (x / ulp)) * ulp \<le> - (2 ^ 52) * ulp"
      using ulp by (intro mult_right_mono) simp_all
    then have "y \<le> - (2 powi e)" unfolding pe y_def by (simp add: mult.commute)
    then show ?thesis by linarith
  qed
  have "(2::real) powi 1024 \<le> 2 powi e" using e by (intro power_int_increasing) simp_all
  with big have "2 powi 1024 \<le> \<bar>y\<bar>" by linarith
  with x0 show ?thesis
    by (simp add: round64_def Let_def e_def [symmetric] m ulp_def [symmetric] y_def [symmetric])
qed

text \<open>The greatest finite value, the first power of two that overflows, and the least
  positive value.\<close>

lemma round64_extremes:
  "round64 (2 ^ 1024 - 2 ^ 971) = Finite (2 ^ 1024 - 2 ^ 971)"
  "round64 (2 ^ 1024) = PosInf"
  "round64 (1 / 2 ^ 1074) = Finite (1 / 2 ^ 1074)"
proof -
  have "round64 (of_int (2 ^ 53 - 1) * 2 powi 971) = Finite (of_int (2 ^ 53 - 1) * 2 powi 971)"
    by (rule round64_representable) simp_all
  moreover have "of_int (2 ^ 53 - 1) * 2 powi 971 = (2 ^ 1024 - 2 ^ 971 :: real)" by simp
  ultimately show "round64 (2 ^ 1024 - 2 ^ 971) = Finite (2 ^ 1024 - 2 ^ 971)" by simp
  have "round64 (2 ^ 1024) = (if (0::real) < 2 ^ 1024 then PosInf else NegInf)"
    by (rule round64_overflow) simp
  then show "round64 (2 ^ 1024) = PosInf" by simp
  have "round64 (of_int 1 * 2 powi (- 1074)) = Finite (of_int 1 * 2 powi (- 1074))"
    by (rule round64_representable) simp_all
  then show "round64 (1 / 2 ^ 1074) = Finite (1 / 2 ^ 1074)"
    by (simp add: power_int_minus field_simps)
qed

subsection \<open>The two forms of the scoring function\<close>

lemmas f64_defs = calculateDiscount_f64_def f64Voucher_def f64_of_int64_def round64_def
  ilog2_def bits.simps roundHalfEven_def scanVoucher_def scanNullFloat64_def scanNullInt64_def Let_def

lemma f64_nonneg_iff:
  "f64_le (Finite 0) x \<longleftrightarrow> x = PosInf \<or> (\<exists>y. 0 \<le> y \<and> x = Finite y)"
  by (cases x) auto

lemma f64_floor_nonneg: "f64_le (Finite 0) x \<Longrightarrow> f64_le (Finite 0) (f64_floor x)"
  by (cases x) auto

lemma f64_mul_nonneg:
  assumes "0 \<le> a" "0 \<le> b"
  shows "f64_le (Finite 0) (f64_mul (Finite a) (Finite b))"
  using round64_nonneg [of "a * b"] assms by (auto simp: f64_nonneg_iff)

lemma f64_div_nonneg:
  assumes "f64_le (Finite 0) x" "0 < c"
  shows "f64_le (Finite 0) (f64_div x (Finite c))"
proof (cases x)
  case (Finite a)
  with assms have "0 \<le> a / c" by simp
  from round64_nonneg [OF this] Finite assms(2) show ?thesis by (auto simp: f64_nonneg_iff)
qed (use assms in auto)

text \<open>Outside the percentage product the exact form is the \<^verbatim>\<open>float64\<close> form, and so
  it is on the percentage branch when the conversion, the product and the quotient need no
  rounding. With rounding the two can differ by one.\<close>

lemma calculateDiscount_f64_exact:
  assumes "orderAmount < MinOrderAmount v \<or> NullFloat64.Valid (DiscountAmount v) \<or>
           \<not> NullInt64.Valid (DiscountPercentage v)"
  shows "calculateDiscount_f64 (f64Voucher v) (Finite orderAmount) =
           (Finite (fst (calculateDiscount v orderAmount)), snd (calculateDiscount v orderAmount))"
  using assms by (auto simp: calculateDiscount_f64_def calculateDiscount_def f64Voucher_def)

lemma calculateDiscount_f64_exact_percentage:
  assumes "f64_of_int64 (Int64 (DiscountPercentage v))
             = Finite (of_int (sint (Int64 (DiscountPercentage v))))"
    and "round64 (orderAmount * of_int (sint (Int64 (DiscountPercentage v))))
             = Finite (orderAmount * of_int (sint (Int64 (DiscountPercentage v))))"
    and "round64 (orderAmount * of_int (sint (Int64 (DiscountPercentage v))) / 100)
             = Finite (orderAmount * of_int (sint (Int64 (DiscountPercentage v))) / 100)"
  shows "calculateDiscount_f64 (f64Voucher v) (Finite orderAmount) =
           (Finite (fst (calculateDiscount v orderAmount)), snd (calculateDiscount v orderAmount))"
  using assms by (auto simp: calculateDiscount_f64_def calculateDiscount_def f64Voucher_def Let_def)

lemma calculateDiscount_exact_differs:
  "calculateDiscount (scanVoucher 3 ''R'' 0 None (Some 3) None) (5864062014805333 / 2 ^ 45)
     = (4, None)"
  "calculateDiscount_f64 (f64Voucher (scanVoucher 3 ''R'' 0 None (Some 3) None))
       (Finite (5864062014805333 / 2 ^ 45))
     = (Finite 5, None)"
  by (simp_all add: calculateDiscount_def f64_defs)

section \<open>Workers and the reduction loop\<close>








subsection \<open>The reduction loop\<close>



lemma foldl_reduceStep_first:
  "(if \<exists>r\<in>set rs. m < Discount r
    then \<exists>i<length rs. foldl reduceStep (b, m) rs = (Voucher (rs ! i), Discount (rs ! i)) \<and>
           m < Discount (rs ! i) \<and>
           (\<forall>j<length rs. Discount (rs ! j) \<le> Discount (rs ! i)) \<and>
           (\<forall>j<i. Discount (rs ! j) < Discount (rs ! i))
    else foldl reduceStep (b, m) rs = (b, m))"
proof (induction rs rule: rev_induct)
  case Nil
  show ?case by simp
next
  case (snoc x xs)
  show ?case
  proof (cases "\<exists>r\<in>set xs. m < Discount r")
    case True
    with snoc obtain i where i: "i < length xs"
      "foldl reduceStep (b, m) xs = (Voucher (xs ! i), Discount (xs ! i))"
      "m < Discount (xs ! i)"
      "\<forall>j<length xs. Discount (xs ! j) \<le> Discount (xs ! i)"
      "\<forall>j<i. Discount (xs ! j) < Discount (xs ! i)"
      by auto
    show ?thesis
    proof (cases "Discount x > Discount (xs ! i)")
      case gt: True
      have "\<forall>j<length xs. Discount (xs ! j) < Discount x"
        using i(4) gt by fastforce
      then have "foldl reduceStep (b, m) (xs @ [x]) = (Voucher ((xs @ [x]) ! length xs), Discount ((xs @ [x]) ! length xs))
        \<and> m < Discount ((xs @ [x]) ! length xs)
        \<and> (\<forall>j<length (xs @ [x]). Discount ((xs @ [x]) ! j) \<le> Discount ((xs @ [x]) ! length xs))
        \<and> (\<forall>j<length xs. Discount ((xs @ [x]) ! j) < Discount ((xs @ [x]) ! length xs))"
        using i gt by (auto simp: nth_append less_Suc_eq)
      moreover have "\<exists>r\<in>set (xs @ [x]). m < Discount r" using True by auto
      ultimately show ?thesis by (metis (no_types, lifting) length_append_singleton lessI)
    next
      case le: False
      have "foldl reduceStep (b, m) (xs @ [x]) = (Voucher ((xs @ [x]) ! i), Discount ((xs @ [x]) ! i))
        \<and> m < Discount ((xs @ [x]) ! i)
        \<and> (\<forall>j<length (xs @ [x]). Discount ((xs @ [x]) ! j) \<le> Discount ((xs @ [x]) ! i))
        \<and> (\<forall>j<i. Discount ((xs @ [x]) ! j) < Discount ((xs @ [x]) ! i))"
        using i le by (auto simp: nth_append less_Suc_eq)
      moreover have "\<exists>r\<in>set (xs @ [x]). m < Discount r" using True by auto
      moreover have "i < length (xs @ [x])" using i(1) by simp
      ultimately show ?thesis by (metis (no_types, lifting))
    qed
  next
    case False
    with snoc have old: "foldl reduceStep (b, m) xs = (b, m)" by simp
    show ?thesis
    proof (cases "m < Discount x")
      case True
      have "\<forall>j<length xs. Discount (xs ! j) < Discount x"
        using False True by (metis nth_mem not_less order_le_less_trans)
      then have "foldl reduceStep (b, m) (xs @ [x]) = (Voucher ((xs @ [x]) ! length xs), Discount ((xs @ [x]) ! length xs))
        \<and> m < Discount ((xs @ [x]) ! length xs)
        \<and> (\<forall>j<length (xs @ [x]). Discount ((xs @ [x]) ! j) \<le> Discount ((xs @ [x]) ! length xs))
        \<and> (\<forall>j<length xs. Discount ((xs @ [x]) ! j) < Discount ((xs @ [x]) ! length xs))"
        using old True by (auto simp: nth_append less_Suc_eq)
      moreover have "\<exists>r\<in>set (xs @ [x]). m < Discount r" using True by auto
      ultimately show ?thesis by (metis (no_types, lifting) length_append_singleton lessI)
    next
      case F2: False
      then show ?thesis using False old by auto
    qed
  qed
qed

section \<open>Runs of the search\<close>


subsection \<open>What a run has delivered\<close>




subsection \<open>Runs end and do not get stuck\<close>











section \<open>What a complete run returns\<close>

lemmas run_defs = findBestVoucher_def init_def finished_def returnValue_def worker_def
  calculateDiscount_def scanVoucher_def scanNullFloat64_def scanNullInt64_def Voucher_zero_def
  reduceLoop_def













text \<open>Claim C4, as amended: for every voucher with a flat amount, on an order amount at or
  above its minimum, \<^verbatim>\<open>calculateDiscount\<close> succeeds with the floor of the flat amount,
  which is the flat amount itself exactly when that is a whole number.\<close>

theorem calculateDiscount_flat:
  assumes "MinOrderAmount v \<le> orderAmount"
    and "NullFloat64.Valid (DiscountAmount v)"
  shows "calculateDiscount v orderAmount = (of_int \<lfloor>Float64 (DiscountAmount v)\<rfloor>, None) \<and>
         (Float64 (DiscountAmount v) \<in> \<int> \<longrightarrow>
            calculateDiscount v orderAmount = (Float64 (DiscountAmount v), None))"
  using assms by (auto simp: calculateDiscount_def)

text \<open>A flat 50 gives 50 and a flat 49.75 gives 49.\<close>

theorem calculateDiscount_flat_witness:
  "calculateDiscount (scanVoucher 1 ''A1'' 100 (Some 50) None None) 500 = (50, None) \<and>
   calculateDiscount (scanVoucher 3 ''F'' 100 (Some (199 / 4)) None None) 500 = (49, None)"
  using calculateDiscount_flat [of "scanVoucher 1 ''A1'' 100 (Some 50) None None" 500]
        calculateDiscount_flat [of "scanVoucher 3 ''F'' 100 (Some (199 / 4)) None None" 500]
  by (simp add: scanVoucher_def scanNullFloat64_def scanNullInt64_def)

text \<open>Claim C4 as stated: a flat amount of 10.5 is floored to 10.\<close>

theorem calculateDiscount_flat_counterexample:
  "calculateDiscount (scanVoucher 1 ''F'' 0 (Some (21 / 2)) None None) 500 = (10, None) \<and>
   (10::real) \<noteq> 21 / 2"
  by (simp add: run_defs)

text \<open>Claim C5: \<^verbatim>\<open>calculateDiscount\<close> returns the error "order amount does not meet
  minimum requirement" exactly when the order amount is strictly below the voucher's
  minimum, and then it returns 0 with the error and the worker sends no result.\<close>

theorem calculateDiscount_below_minimum:
  "((snd (calculateDiscount v orderAmount) = Some OrderBelowMinimum)
      = (orderAmount < MinOrderAmount v)) \<and>
   (orderAmount < MinOrderAmount v \<longrightarrow>
      calculateDiscount v orderAmount = (0, Some OrderBelowMinimum) \<and> worker v orderAmount = [])"
  by (simp add: calculateDiscount_def worker_def Let_def)

text \<open>Scenario B: minimum 1000 and order 500 fail; the same voucher on an order of
  exactly 1000 does not.\<close>

theorem calculateDiscount_below_minimum_witness:
  "(500::real) < MinOrderAmount (scanVoucher 1 ''B'' 1000 (Some 10) None None) \<and>
   calculateDiscount (scanVoucher 1 ''B'' 1000 (Some 10) None None) 500
     = (0, Some OrderBelowMinimum) \<and>
   worker (scanVoucher 1 ''B'' 1000 (Some 10) None None) 500 = [] \<and>
   \<not> (1000::real) < MinOrderAmount (scanVoucher 1 ''B'' 1000 (Some 10) None None) \<and>
   snd (calculateDiscount (scanVoucher 1 ''B'' 1000 (Some 10) None None) 1000) = None"
proof -
  let ?b = "scanVoucher 1 ''B'' 1000 (Some 10) None None"
  have lt: "(500::real) < MinOrderAmount ?b" by (simp add: scanVoucher_def)
  have ge: "\<not> (1000::real) < MinOrderAmount ?b" by (simp add: scanVoucher_def)
  from calculateDiscount_below_minimum [of ?b 500] lt
  have "calculateDiscount ?b 500 = (0, Some OrderBelowMinimum) \<and> worker ?b 500 = []" by blast
  moreover from calculateDiscount_below_minimum [of ?b 1000] ge
  have "snd (calculateDiscount ?b 1000) \<noteq> Some OrderBelowMinimum" by blast
  then have "snd (calculateDiscount ?b 1000) = None"
    by (simp add: run_defs)
  ultimately show ?thesis using lt ge by blast
qed

text \<open>Claim C8, as amended: whenever \<^verbatim>\<open>calculateDiscount\<close> succeeds on an order amount
  that is finite and not negative and a voucher whose flat amount, percentage and cap,
  where set, are not negative (which NaN is not), the score is not negative: it is a
  finite value from 0 on or the positive infinity.\<close>

theorem calculateDiscount_f64_nonneg:
  assumes "calculateDiscount_f64 v orderAmount = (d, None)"
    and "f64_finite orderAmount" and "f64_le (Finite 0) orderAmount"
    and "NullFloat64.Valid (DiscountAmount v) \<longrightarrow> f64_le (Finite 0) (Float64 (DiscountAmount v))"
    and "NullInt64.Valid (DiscountPercentage v) \<longrightarrow> 0 \<le> sint (Int64 (DiscountPercentage v))"
    and "NullFloat64.Valid (MaxDiscountAmount v) \<longrightarrow>
           f64_le (Finite 0) (Float64 (MaxDiscountAmount v))"
  shows "f64_le (Finite 0) d"
proof (cases "NullFloat64.Valid (DiscountAmount v)")
  case True
  with assms(1) have "d = f64_floor (Float64 (DiscountAmount v))"
    by (auto simp: calculateDiscount_f64_def split: if_splits)
  with True assms(4) show ?thesis by (simp add: f64_floor_nonneg)
next
  case False
  with assms(1) have pv: "NullInt64.Valid (DiscountPercentage v)"
    by (auto simp: calculateDiscount_f64_def split: if_splits)
  from assms(2,3) obtain a where a: "orderAmount = Finite a" "0 \<le> a"
    by (cases orderAmount) auto
  from pv assms(5) have "0 \<le> sint (Int64 (DiscountPercentage v))" by blast
  from f64_of_int64_nonneg [OF this] obtain p where
    p: "f64_of_int64 (Int64 (DiscountPercentage v)) = Finite p" "0 \<le> p" by blast
  define discount where
    "discount = f64_div (f64_mul orderAmount (f64_of_int64 (Int64 (DiscountPercentage v))))
                  (Finite 100)"
  have "f64_le (Finite 0) (f64_mul (Finite a) (Finite p))"
    using a(2) p(2) by (rule f64_mul_nonneg)
  then have disc: "f64_le (Finite 0) discount"
    unfolding discount_def a(1) p(1) by (rule f64_div_nonneg) simp
  from assms(1) False pv have
    "d = f64_floor (if NullFloat64.Valid (MaxDiscountAmount v) \<and>
                       f64_lt (Float64 (MaxDiscountAmount v)) discount
                    then Float64 (MaxDiscountAmount v) else discount)"
    by (auto simp: calculateDiscount_f64_def Let_def discount_def split: if_splits)
  with disc assms(6) show ?thesis by (auto intro: f64_floor_nonneg)
qed

text \<open>The two vouchers of scenario A.\<close>

theorem calculateDiscount_f64_nonneg_witness:
  "calculateDiscount_f64 (f64Voucher (scanVoucher 1 ''A1'' 100 (Some 50) None None)) (Finite 500)
     = (Finite 50, None) \<and>
   calculateDiscount_f64 (f64Voucher (scanVoucher 2 ''A2'' 100 None (Some 20) (Some 90))) (Finite 500)
     = (Finite 90, None) \<and>
   f64_le (Finite 0) (Finite 50) \<and> f64_le (Finite 0) (Finite 90)"
proof -
  let ?a1 = "f64Voucher (scanVoucher 1 ''A1'' 100 (Some 50) None None)"
  let ?a2 = "f64Voucher (scanVoucher 2 ''A2'' 100 None (Some 20) (Some 90))"
  have a1: "calculateDiscount_f64 ?a1 (Finite 500) = (Finite 50, None)" by (simp add: f64_defs)
  have a2: "calculateDiscount_f64 ?a2 (Finite 500) = (Finite 90, None)" by (simp add: f64_defs)
  have "f64_le (Finite 0) (Finite 50)"
    by (rule calculateDiscount_f64_nonneg [OF a1])
       (simp_all add: f64Voucher_def scanVoucher_def scanNullFloat64_def scanNullInt64_def)
  moreover have "f64_le (Finite 0) (Finite 90)"
    by (rule calculateDiscount_f64_nonneg [OF a2])
       (simp_all add: f64Voucher_def scanVoucher_def scanNullFloat64_def scanNullInt64_def)
  ultimately show ?thesis using a1 a2 by blast
qed

text \<open>Claim C8 as stated: a negative flat amount, a negative percentage, a negative cap
  and a negative order amount each give a successful negative score, and an infinite order
  amount with a percentage of 0 gives NaN.\<close>

theorem calculateDiscount_f64_nonneg_counterexample:
  "calculateDiscount_f64 (f64Voucher (scanVoucher 1 ''NEG'' 0 (Some (- 5)) None None)) (Finite 500)
     = (Finite (- 5), None) \<and>
   calculateDiscount_f64 (f64Voucher (scanVoucher 2 ''NEGP'' 0 None (Some (- 10)) None)) (Finite 500)
     = (Finite (- 50), None) \<and>
   calculateDiscount_f64 (f64Voucher (scanVoucher 3 ''NEGC'' 0 None (Some 10) (Some (- 1)))) (Finite 500)
     = (Finite (- 1), None) \<and>
   calculateDiscount_f64 (f64Voucher (scanVoucher 4 ''NEGO'' (- 200) None (Some 10) None)) (Finite (- 100))
     = (Finite (- 10), None) \<and>
   calculateDiscount_f64 (f64Voucher (scanVoucher 5 ''ZERO'' 0 None (Some 0) None)) PosInf
     = (NaN, None) \<and>
   \<not> f64_le (Finite 0) (Finite (- 5)) \<and> \<not> f64_le (Finite 0) NaN"
  by (simp add: f64_defs)

text \<open>Claim C10, as amended: for every voucher with both the flat amount and the
  percentage set, on an order amount at or above its minimum, \<^verbatim>\<open>calculateDiscount\<close>
  succeeds with the floor of the flat amount, and the result does not change when the
  percentage and the cap are replaced by anything else.\<close>

theorem calculateDiscount_both_set:
  assumes "MinOrderAmount v \<le> orderAmount"
    and "NullFloat64.Valid (DiscountAmount v)"
    and "NullInt64.Valid (DiscountPercentage v)"
  shows "calculateDiscount v orderAmount = (of_int \<lfloor>Float64 (DiscountAmount v)\<rfloor>, None) \<and>
         calculateDiscount (v\<lparr>DiscountPercentage := p, MaxDiscountAmount := c\<rparr>) orderAmount
           = calculateDiscount v orderAmount"
  using assms by (simp add: calculateDiscount_def)

text \<open>A flat 50 together with 20 percent capped at 90 gives 50, as the same voucher
  without percentage and cap does.\<close>

theorem calculateDiscount_both_set_witness:
  "calculateDiscount (scanVoucher 1 ''BOTH'' 100 (Some 50) (Some 20) (Some 90)) 500 = (50, None) \<and>
   calculateDiscount (scanVoucher 1 ''BOTH'' 100 (Some 50) None None) 500 = (50, None)"
proof -
  let ?v = "scanVoucher 1 ''BOTH'' 100 (Some 50) (Some 20) (Some 90)"
  have eq: "?v\<lparr>DiscountPercentage := scanNullInt64 None, MaxDiscountAmount := scanNullFloat64 None\<rparr>
      = scanVoucher 1 ''BOTH'' 100 (Some 50) None None"
    by (simp add: scanVoucher_def)
  from calculateDiscount_both_set [where v = ?v and orderAmount = 500
      and p = "scanNullInt64 None" and c = "scanNullFloat64 None"]
  have "calculateDiscount ?v 500 = (50, None) \<and>
        calculateDiscount (?v\<lparr>DiscountPercentage := scanNullInt64 None,
           MaxDiscountAmount := scanNullFloat64 None\<rparr>) 500 = calculateDiscount ?v 500"
    by (simp add: scanVoucher_def scanNullFloat64_def scanNullInt64_def)
  then show ?thesis by (simp add: eq)
qed

text \<open>Claim C10 as stated: with both set and a flat amount of 10.5 the result is 10,
  not the flat amount.\<close>

theorem calculateDiscount_both_set_counterexample:
  "calculateDiscount (scanVoucher 1 ''BOTH'' 0 (Some (21 / 2)) (Some 20) (Some 90)) 500 = (10, None) \<and>
   (10::real) \<noteq> 21 / 2"
  by (simp add: run_defs)




text \<open>Claim C7, as amended: for every delivered sequence that holds a score above zero,
  the reduction loop ends with the first result, in delivery order, whose score is the
  greatest of the sequence (no later result replaces it on a tie); for every other
  sequence it ends as it started, with \<^verbatim>\<open>Voucher{}\<close> and 0.\<close>

theorem reduceLoop_first_maximum:
  "(if \<exists>r\<in>set results. 0 < Discount r
    then \<exists>i<length results.
           reduceLoop results = (Voucher (results ! i), Discount (results ! i)) \<and>
           (\<forall>j<length results. Discount (results ! j) \<le> Discount (results ! i)) \<and>
           (\<forall>j<i. Discount (results ! j) < Discount (results ! i))
    else reduceLoop results = (Voucher_zero, 0))"
  using foldl_reduceStep_first [of results 0 Voucher_zero]
  unfolding reduceLoop_def by (auto split: if_splits)

text \<open>Scores 50, 90, 90: the second result is kept, the third does not replace it.\<close>

theorem reduceLoop_first_maximum_witness:
  "reduceLoop
     [\<lparr>Voucher = scanVoucher 1 ''A1'' 100 (Some 50) None None, Discount = 50\<rparr>,
      \<lparr>Voucher = scanVoucher 2 ''A2'' 100 None (Some 20) (Some 90), Discount = 90\<rparr>,
      \<lparr>Voucher = scanVoucher 3 ''A3'' 100 (Some 90) None None, Discount = 90\<rparr>]
   = (scanVoucher 2 ''A2'' 100 None (Some 20) (Some 90), 90) \<and>
   reduceLoop [] = (Voucher_zero, 0)"
proof -
  let ?rs = "[\<lparr>Voucher = scanVoucher 1 ''A1'' 100 (Some 50) None None, Discount = 50\<rparr>,
      \<lparr>Voucher = scanVoucher 2 ''A2'' 100 None (Some 20) (Some 90), Discount = 90\<rparr>,
      \<lparr>Voucher = scanVoucher 3 ''A3'' 100 (Some 90) None None, Discount = 90\<rparr>]"
  have pos: "\<exists>r\<in>set ?rs. 0 < Discount r" by simp
  from reduceLoop_first_maximum [of ?rs] pos
  obtain i where i: "i < length ?rs"
    "reduceLoop ?rs = (Voucher (?rs ! i), Discount (?rs ! i))"
    "\<forall>j<length ?rs. Discount (?rs ! j) \<le> Discount (?rs ! i)"
    "\<forall>j<i. Discount (?rs ! j) < Discount (?rs ! i)"
    by (auto split: if_splits)
  from i(1) have "i = 0 \<or> i = 1 \<or> i = 2" by auto
  moreover have "i \<noteq> 0"
  proof
    assume "i = 0"
    with i(3) [rule_format, of 1] show False by simp
  qed
  moreover have "i \<noteq> 2"
  proof
    assume "i = 2"
    with i(4) [rule_format, of 1] show False by simp
  qed
  ultimately have "i = 1" by blast
  with i(2) have "reduceLoop ?rs = (scanVoucher 2 ''A2'' 100 None (Some 20) (Some 90), 90)"
    by simp
  moreover from reduceLoop_first_maximum [of "[]"] have "reduceLoop [] = (Voucher_zero, 0)"
    by simp
  ultimately show ?thesis by blast
qed

text \<open>Claim C7 as stated: after a single result of score 0, or of score -5, both of
  which a worker can send, the running best is still \<^verbatim>\<open>Voucher{}\<close> and 0.\<close>

theorem reduceLoop_first_maximum_counterexample:
  "reduceLoop [\<lparr>Voucher = scanVoucher 1 ''HALF'' 0 (Some (1 / 2)) None None, Discount = 0\<rparr>]
     = (Voucher_zero, 0) \<and>
   reduceLoop [\<lparr>Voucher = scanVoucher 2 ''NEG'' 0 (Some (- 5)) None None, Discount = - 5\<rparr>]
     = (Voucher_zero, 0) \<and>
   scanVoucher 1 ''HALF'' 0 (Some (1 / 2)) None None \<noteq> Voucher_zero \<and>
   worker (scanVoucher 1 ''HALF'' 0 (Some (1 / 2)) None None) 500
     = [\<lparr>Voucher = scanVoucher 1 ''HALF'' 0 (Some (1 / 2)) None None, Discount = 0\<rparr>] \<and>
   worker (scanVoucher 2 ''NEG'' 0 (Some (- 5)) None None) 500
     = [\<lparr>Voucher = scanVoucher 2 ''NEG'' 0 (Some (- 5)) None None, Discount = - 5\<rparr>]"
  by (simp add: run_defs)



end
